theory Spec2Isabelle
  imports Main "HOL-Library.Product_Lexorder" "HOL-Library.Multiset"
begin

section \<open>The course record (Class22.py, class Course)\<close>

text \<open>
  The dataclass \<^verbatim>\<open>Course\<close>. Python's \<^verbatim>\<open>int\<close> is unbounded, so \<open>credits\<close>,
  \<open>priority\<close> and the period of a time slot are \<open>int\<close>; \<^verbatim>\<open>time_slots\<close> is a Python
  list of (day, period) tuples and stays a list (order and repetitions are kept). The
  field \<^verbatim>\<open>notes\<close> is \<open>notes_str\<close> here, \<open>notes\<close> being a keyword of Isabelle.
\<close>

record course =
  name :: string
  type :: string
  class_id :: string
  credits :: int
  priority :: int
  time_slots :: "(string \<times> int) list"
  must_select :: bool
  temporarily_exclude :: bool
  teacher :: string
  notes_str :: string

text \<open>
  The two category strings the source compares \<^verbatim>\<open>c.type\<close> with, as their UTF-8 bytes
  (U+5FC5 U+4FEE for a required course, U+9078 U+4FEE for an elective one).
\<close>

definition type_required :: string where
  "type_required = [CHR 0xE5, CHR 0xBF, CHR 0x85, CHR 0xE4, CHR 0xBF, CHR 0xAE]"

definition type_elective :: string where
  "type_elective = [CHR 0xE9, CHR 0x81, CHR 0xB8, CHR 0xE4, CHR 0xBF, CHR 0xAE]"

section \<open>Dictionaries that keep insertion order\<close>

text \<open>
  A Python \<^verbatim>\<open>dict\<close> iterates in insertion order, and three loops of
  \<^verbatim>\<open>generate_schedules\<close> depend on it, so a dictionary of lists is an association list.
  \<open>dict_append k v d\<close> is the idiom
  \<^verbatim>\<open>if k not in d: d[k] = []\<close> followed by \<^verbatim>\<open>d[k].append(v)\<close>
  (and \<^verbatim>\<open>d.setdefault(k, []).append(v)\<close>): a new key goes to the end.
\<close>

fun dict_append :: "'k \<Rightarrow> 'v \<Rightarrow> ('k \<times> 'v list) list \<Rightarrow> ('k \<times> 'v list) list" where
  "dict_append k v [] = [(k, [v])]"
| "dict_append k v ((k', vs) # d) =
     (if k = k' then (k', vs @ [v]) # d else (k', vs) # dict_append k v d)"

section \<open>The result tuple of one timetable\<close>

text \<open>
  The source appends the tuple
  \<^verbatim>\<open>(combo, total_priority, total_credits, req_credits, ele_credits, conflicts, conflict_count)\<close>;
  its components, read later as \<^verbatim>\<open>x[1]\<close>, \<^verbatim>\<open>x[2]\<close> and \<^verbatim>\<open>s[6]\<close>, are the fields of
  this record in the same order. \<open>conflicts\<close> is \<^verbatim>\<open>None\<close> when there is no conflict.
\<close>

type_synonym conflict = "string \<times> int \<times> course list"

record schedule =
  combo :: "course list"
  total_priority :: int
  total_credits :: int
  req_credits :: int
  ele_credits :: int
  conflicts :: "conflict list option"
  conflict_count :: int

text \<open>
  What the program shows to the user through \<^verbatim>\<open>st.error\<close>, \<^verbatim>\<open>st.warning\<close> and
  \<^verbatim>\<open>st.success\<close>: one constructor for each message of \<^verbatim>\<open>generate_schedules\<close> and of the
  two buttons modelled below, with the value the message prints.
\<close>

datatype message =
    MissingMustSelect string
  | MaxSchedulesReached int
  | NoCourses
  | NoRequiredCourses
  | NoSchedules
  | Generated
  | SortApplied
  | NothingToSort

section \<open>generate_schedules\<close>

subsection \<open>Must-select names and the available courses (lines 59 to 68)\<close>

text \<open>
  \<^verbatim>\<open>must_select_names\<close> is a Python set of strings. Its iteration order is not fixed by
  the language; here it is a duplicate-free list, and nothing proved below depends on the
  order chosen.
\<close>

definition must_select_names :: "course list \<Rightarrow> string list" where
  "must_select_names required_courses = remdups (map name (filter must_select required_courses))"

definition available_courses :: "course list \<Rightarrow> course list" where
  "available_courses courses = filter (\<lambda>c. \<not> temporarily_exclude c) courses"

text \<open>
  The loop of lines 65 to 68: the first must-select name for which
  \<^verbatim>\<open>any(c.name == name for c in available_courses)\<close> is false.
\<close>

definition missing_must_select :: "string list \<Rightarrow> course list \<Rightarrow> string option" where
  "missing_must_select names avail =
     List.find (\<lambda>n. \<not> list_ex (\<lambda>c. name c = n) avail) names"

subsection \<open>Grouping (lines 70 to 82)\<close>

definition group_by_name :: "course list \<Rightarrow> (string \<times> course list) list" where
  "group_by_name avail = foldl (\<lambda>d c. dict_append (name c) c d) [] avail"

text \<open>
  \<^verbatim>\<open>sorted(group, key=lambda c: (not c.must_select, -c.priority))\<close>: Python's sort is
  stable and compares the key tuples lexicographically, with \<^verbatim>\<open>False < True\<close>.
\<close>

definition group_key :: "course \<Rightarrow> bool \<times> int" where
  "group_key c = (\<not> must_select c, - priority c)"

definition grouped_courses :: "course list \<Rightarrow> (string \<times> course list) list" where
  "grouped_courses avail = map (\<lambda>(n, g). (n, sort_key group_key g)) (group_by_name avail)"

definition course_names :: "course list \<Rightarrow> string list" where
  "course_names avail = map fst (grouped_courses avail)"

definition course_options :: "course list \<Rightarrow> course list list" where
  "course_options avail = map snd (grouped_courses avail)"

subsection \<open>The Cartesian product (line 83)\<close>

text \<open>
  \<^verbatim>\<open>itertools.product(*course_options)\<close>: the tuples in the order of nested loops, the
  first pool in the outermost loop; with no pool at all it yields the one empty tuple.
\<close>

fun itertools_product :: "'a list list \<Rightarrow> 'a list list" where
  "itertools_product [] = [[]]"
| "itertools_product (pool # pools) =
     concat (map (\<lambda>x. map (\<lambda>rest. x # rest) (itertools_product pools)) pool)"

subsection \<open>Evaluating one combination (lines 92 to 128)\<close>

definition has_all_must_select :: "string list \<Rightarrow> course list \<Rightarrow> bool" where
  "has_all_must_select names cmb = list_all (\<lambda>n. list_ex (\<lambda>c. name c = n) cmb) names"

definition time_slot_map :: "course list \<Rightarrow> ((string \<times> int) \<times> course list) list" where
  "time_slot_map cmb =
     foldl (\<lambda>m c. foldl (\<lambda>m' key. dict_append key c m') m (time_slots c)) [] cmb"

text \<open>The body of the loop of lines 109 to 114, on the pair (conflicts, conflict_count).\<close>

fun conflict_step ::
  "conflict list \<times> int \<Rightarrow> (string \<times> int) \<times> course list \<Rightarrow> conflict list \<times> int" where
  "conflict_step (cs, n) ((day, period), course_list) =
     (if length course_list > 1
      then (cs @ [(day, period, course_list)], n + (int (length course_list) - 1))
      else (cs, n))"

definition find_conflicts :: "course list \<Rightarrow> conflict list \<times> int" where
  "find_conflicts cmb = foldl conflict_step ([], 0) (time_slot_map cmb)"

definition evaluate :: "course list \<Rightarrow> schedule" where
  "evaluate cmb =
     (let (cs, n) = find_conflicts cmb in
      \<lparr> combo = cmb,
        total_priority = sum_list (map priority cmb),
        total_credits = sum_list (map credits cmb),
        req_credits = sum_list (map credits (filter (\<lambda>c. type c = type_required) cmb)),
        ele_credits = sum_list (map credits (filter (\<lambda>c. type c = type_elective) cmb)),
        conflicts = (if n = 0 then None else Some cs),
        conflict_count = n \<rparr>)"

subsection \<open>The enumeration loop (lines 85 to 129)\<close>

text \<open>
  The loop over the product, on the state (\<^verbatim>\<open>count_generated\<close>, \<^verbatim>\<open>schedules\<close>).
  It returns the dictionary \<^verbatim>\<open>schedules\<close> (conflict count to timetables, in insertion
  order) and the warning, if the \<^verbatim>\<open>break\<close> was taken.
\<close>

fun enumerate_loop ::
  "string list \<Rightarrow> int \<Rightarrow> course list list \<Rightarrow> int \<Rightarrow> (int \<times> schedule list) list \<Rightarrow>
     (int \<times> schedule list) list \<times> message list" where
  "enumerate_loop names max_schedules [] count_generated schedules = (schedules, [])"
| "enumerate_loop names max_schedules (cmb # rest) count_generated schedules =
     (if count_generated \<ge> max_schedules then (schedules, [MaxSchedulesReached max_schedules])
      else if \<not> has_all_must_select names cmb
      then enumerate_loop names max_schedules rest count_generated schedules
      else enumerate_loop names max_schedules rest (count_generated + 1)
             (dict_append (conflict_count (evaluate cmb)) (evaluate cmb) schedules))"

subsection \<open>Sorting and flattening (lines 131 to 141)\<close>

definition schedule_key :: "schedule \<Rightarrow> int \<times> int" where
  "schedule_key x = (- total_priority x, - total_credits x)"

text \<open>
  \<^verbatim>\<open>schedules[ccount]\<close> for a key taken from \<^verbatim>\<open>schedules.keys()\<close>; the lookup cannot
  miss (lemma \<open>dict_get_key\<close> below), so the branch for a missing key is never taken.
\<close>

definition dict_get :: "('k \<times> 'v list) list \<Rightarrow> 'k \<Rightarrow> 'v list" where
  "dict_get d k = (case map_of d k of Some vs \<Rightarrow> vs | None \<Rightarrow> [])"

definition flatten_schedules :: "(int \<times> schedule list) list \<Rightarrow> schedule list" where
  "flatten_schedules schedules =
     (let sorted_conflict_counts = sort (map fst schedules);
          sorted_schedules = map (\<lambda>(k, v). (k, sort_key schedule_key v)) schedules
      in concat (map (dict_get sorted_schedules) sorted_conflict_counts))"

subsection \<open>The whole function\<close>

text \<open>
  The result is the pair of what was shown to the user and the returned list.
  \<^verbatim>\<open>elective_courses\<close> is a parameter of the source function and is kept.
\<close>

definition generate_schedules ::
  "course list \<Rightarrow> course list \<Rightarrow> course list \<Rightarrow> int \<Rightarrow> message list \<times> schedule list" where
  "generate_schedules courses required_courses elective_courses max_schedules =
     (let names = must_select_names required_courses;
          avail = available_courses courses
      in case missing_must_select names avail of
           Some n \<Rightarrow> ([MissingMustSelect n], [])
         | None \<Rightarrow>
             (let (schedules, msgs) =
                    enumerate_loop names max_schedules
                      (itertools_product (course_options avail)) 0 []
              in (msgs, flatten_schedules schedules)))"

section \<open>Ranking (main, lines 436 to 452 and 476 to 492)\<close>

text \<open>
  The radio button has two options; the source tests for the first and treats anything
  else as the second. The nested function \<^verbatim>\<open>sort_key\<close> of the source is \<open>sort_key_fn\<close>
  here (\<open>sort_key\<close> is the stable sort of the list library); \<^verbatim>\<open>sort_key_generated\<close> is
  its copy inside the handler of the other button.
\<close>

datatype sort_option = ConflictsFirst | PriorityFirst

definition sort_key_fn :: "sort_option \<Rightarrow> schedule \<Rightarrow> int \<times> int" where
  "sort_key_fn opt s =
     (if opt = ConflictsFirst then (conflict_count s, - total_priority s)
      else (- total_priority s, conflict_count s))"

definition sort_key_generated :: "sort_option \<Rightarrow> schedule \<Rightarrow> int \<times> int" where
  "sort_key_generated opt s =
     (if opt = ConflictsFirst then (conflict_count s, - total_priority s)
      else (- total_priority s, conflict_count s))"

text \<open>Ranking a list, \<^verbatim>\<open>lst.sort(key=sort_key)\<close>: Python's stable sort by that key.\<close>

definition rank :: "sort_option \<Rightarrow> schedule list \<Rightarrow> schedule list" where
  "rank opt lst = sort_key (sort_key_fn opt) lst"

text \<open>
  The button that re-sorts both stored lists (lines 436 to 456): nothing happens when both
  are empty.
\<close>

definition apply_sort ::
  "sort_option \<Rightarrow> schedule list \<times> schedule list \<Rightarrow>
     message list \<times> schedule list \<times> schedule list" where
  "apply_sort opt st =
     (if \<not> (fst st = [] \<and> snd st = [])
      then ([SortApplied], rank opt (fst st), rank opt (snd st))
      else ([NothingToSort], st))"

text \<open>
  The button that generates (lines 461 to 498), on the two stored lists
  (\<^verbatim>\<open>generated_schedules\<close>, \<^verbatim>\<open>conflict_schedules\<close>): the two category lists, the
  call with the default \<^verbatim>\<open>max_schedules=1000\<close>, the split by \<^verbatim>\<open>s[6]\<close> and the two
  sorts. The stored lists change only when at least one timetable was returned.
\<close>

definition generate_button ::
  "sort_option \<Rightarrow> course list \<Rightarrow> schedule list \<times> schedule list \<Rightarrow>
     message list \<times> schedule list \<times> schedule list" where
  "generate_button opt courses st =
     (if courses = [] then ([NoCourses], st)
      else
        let required_courses = filter (\<lambda>c. type c = type_required) courses;
            elective_courses = filter (\<lambda>c. type c = type_elective) courses
        in if required_courses = [] then ([NoRequiredCourses], st)
           else
             let (msgs, all_schedules) =
                   generate_schedules courses required_courses elective_courses 1000
             in if all_schedules = [] then (msgs @ [NoSchedules], st)
                else
                  let conflict_free = filter (\<lambda>s. conflict_count s = 0) all_schedules;
                      conflict_yes = filter (\<lambda>s. conflict_count s > 0) all_schedules
                  in (msgs @ [Generated],
                      sort_key (sort_key_generated opt) conflict_free,
                      sort_key (sort_key_generated opt) conflict_yes))"

section \<open>Notions used to state the properties\<close>

text \<open>The distinct elements of a list, each at the place of its first occurrence.\<close>

definition first_occurrences :: "'a list \<Rightarrow> 'a list" where
  "first_occurrences xs = rev (remdups (rev xs))"

text \<open>
  The three-key comparator: conflict count ascending, then total priority descending, then
  total credits descending, as one key ordered lexicographically.
\<close>

definition three_key :: "schedule \<Rightarrow> int \<times> int \<times> int" where
  "three_key s = (conflict_count s, - total_priority s, - total_credits s)"

text \<open>
  The slots a candidate lists, section after section, and the occupants of a slot: each
  section of the candidate, as many times as it lists the slot. \<open>slot_entries\<close> pairs
  every listing with its section, in the order the source scans them.
\<close>

definition slot_entries :: "course list \<Rightarrow> ((string \<times> int) \<times> course) list" where
  "slot_entries cmb = concat (map (\<lambda>c. map (\<lambda>key. (key, c)) (time_slots c)) cmb)"

definition all_slots :: "course list \<Rightarrow> (string \<times> int) list" where
  "all_slots cmb = concat (map time_slots cmb)"

definition occupants :: "course list \<Rightarrow> string \<times> int \<Rightarrow> course list" where
  "occupants cmb key = concat (map (\<lambda>c. replicate (count_list (time_slots c) key) c) cmb)"

text \<open>
  The sections of a candidate that occupy a slot, each once however often it lists the
  slot.
\<close>

definition occupying_sections :: "course list \<Rightarrow> string \<times> int \<Rightarrow> course list" where
  "occupying_sections cmb key = filter (\<lambda>c. key \<in> set (time_slots c)) cmb"

text \<open>
  The index tuple of the \<open>q\<close>-th element of a product of pools of sizes \<open>ns\<close>: the digits
  of \<open>q\<close> in the mixed radix \<open>ns\<close>, the first pool being the most significant digit.
\<close>

fun index_tuple :: "nat list \<Rightarrow> nat \<Rightarrow> nat list" where
  "index_tuple [] q = []"
| "index_tuple (n # ns) q = (q div prod_list ns) # index_tuple ns (q mod prod_list ns)"

subsection \<open>A small pool of sections for concrete instances\<close>

definition section_of ::
  "string \<Rightarrow> string \<Rightarrow> string \<Rightarrow> int \<Rightarrow> int \<Rightarrow> (string \<times> int) list \<Rightarrow> bool \<Rightarrow> bool \<Rightarrow> course" where
  "section_of n ty cid cr pr ts ms ex =
     \<lparr> name = n, type = ty, class_id = cid, credits = cr, priority = pr, time_slots = ts,
       must_select = ms, temporarily_exclude = ex, teacher = [], notes_str = [] \<rparr>"

definition ex_A :: course where
  "ex_A = section_of ''A'' type_required ''1'' 3 5 [(''Mon'', 1)] False False"

definition ex_B :: course where
  "ex_B = section_of ''B'' type_required ''1'' 2 3 [(''Mon'', 1)] False False"

definition ex_C :: course where
  "ex_C = section_of ''C'' type_elective ''1'' 2 4 [(''Tue'', 2)] False False"

definition ex_X1 :: course where
  "ex_X1 = section_of ''X'' type_required ''1'' 3 2 [(''Mon'', 1)] False False"

definition ex_X2 :: course where
  "ex_X2 = section_of ''X'' type_required ''2'' 3 5 [(''Wed'', 1)] True False"

definition ex_excluded :: course where
  "ex_excluded = section_of ''Z'' type_required ''1'' 3 5 [(''Fri'', 3)] True True"

definition ex_twice :: course where
  "ex_twice = section_of ''D'' type_elective ''1'' 2 3 [(''Mon'', 1), (''Mon'', 1)] False False"

definition ex_twice_required :: course where
  "ex_twice_required =
     section_of ''E'' type_required ''1'' 2 3 [(''Mon'', 1), (''Mon'', 1)] False False"

definition ex_B2 :: course where
  "ex_B2 = section_of ''B'' type_required ''2'' 2 1 [(''Thu'', 4)] False False"

definition ex_pool2 :: "course list" where
  "ex_pool2 = [ex_A, ex_X1, ex_excluded, ex_B, ex_C, ex_X2, ex_B2]"

definition ex_pool :: "course list" where
  "ex_pool = [ex_A, ex_X1, ex_B, ex_C, ex_X2]"

definition ex_required :: "course list" where
  "ex_required = [ex_A, ex_X1, ex_B, ex_X2]"

section \<open>Insertion-ordered dictionaries and grouping\<close>

lemma first_occurrences_snoc:
  "first_occurrences (xs @ [x]) =
     (if x \<in> set xs then first_occurrences xs else first_occurrences xs @ [x])"
  by (simp add: first_occurrences_def)

lemma set_first_occurrences [simp]: "set (first_occurrences xs) = set xs"
  by (simp add: first_occurrences_def)

lemma distinct_first_occurrences [simp]: "distinct (first_occurrences xs)"
  by (simp add: first_occurrences_def)

lemma dict_append_keys:
  "map fst (dict_append k v d) = (if k \<in> fst ` set d then map fst d else map fst d @ [k])"
  by (induction k v d rule: dict_append.induct) (auto simp: image_iff)

lemma dict_get_append:
  "dict_get (dict_append k v d) k' = (if k' = k then dict_get d k @ [v] else dict_get d k')"
  by (induction k v d rule: dict_append.induct) (auto simp: dict_get_def)

lemma dict_get_key: "k \<in> fst ` set d \<Longrightarrow> \<exists>vs. map_of d k = Some vs"
  by (induction d) auto

lemma dict_rebuild:
  "distinct (map fst d) \<Longrightarrow> map (\<lambda>k. (k, dict_get d k)) (map fst d) = d"
proof (induction d)
  case Nil
  then show ?case by simp
next
  case (Cons p d)
  obtain k vs where p: "p = (k, vs)" by (cases p)
  from Cons.prems p have notin: "k \<notin> fst ` set d" and dist: "distinct (map fst d)"
    by auto
  have "map (\<lambda>k'. (k', dict_get ((k, vs) # d) k')) (map fst d) = map (\<lambda>k'. (k', dict_get d k')) (map fst d)"
    using notin by (auto simp: dict_get_def)
  with Cons.IH [OF dist] p show ?case
    by (simp add: dict_get_def)
qed

lemma group_fold_keys:
  "map fst (foldl (\<lambda>d x. dict_append (f x) (g x) d) [] xs) = first_occurrences (map f xs)"
proof (induction xs rule: rev_induct)
  case Nil
  then show ?case by (simp add: first_occurrences_def)
next
  case (snoc x xs)
  have "fst ` set (foldl (\<lambda>d x. dict_append (f x) (g x) d) [] xs) = f ` set xs"
    using snoc.IH by (metis set_first_occurrences set_map)
  then show ?case
    using snoc.IH by (simp add: dict_append_keys first_occurrences_snoc)
qed

lemma group_fold_get:
  "dict_get (foldl (\<lambda>d x. dict_append (f x) (g x) d) [] xs) k = map g (filter (\<lambda>x. f x = k) xs)"
proof (induction xs arbitrary: k rule: rev_induct)
  case Nil
  then show ?case by (simp add: dict_get_def)
next
  case (snoc x xs)
  then show ?case by (simp add: dict_get_append)
qed

lemma group_fold_eq:
  "foldl (\<lambda>d x. dict_append (f x) (g x) d) [] xs =
     map (\<lambda>k. (k, map g (filter (\<lambda>x. f x = k) xs))) (first_occurrences (map f xs))"
proof -
  let ?d = "foldl (\<lambda>d x. dict_append (f x) (g x) d) [] xs"
  have "distinct (map fst ?d)" by (simp add: group_fold_keys)
  from dict_rebuild [OF this] show ?thesis
    by (simp add: group_fold_keys group_fold_get)
qed

lemma group_by_name_eq:
  "group_by_name avail =
     map (\<lambda>n. (n, filter (\<lambda>c. name c = n) avail)) (first_occurrences (map name avail))"
  unfolding group_by_name_def using group_fold_eq [of name "\<lambda>c. c" avail] by simp

lemma course_names_eq: "course_names avail = first_occurrences (map name avail)"
  by (simp add: course_names_def grouped_courses_def group_by_name_eq comp_def)

lemma course_options_eq:
  "course_options avail =
     map (\<lambda>n. sort_key group_key (filter (\<lambda>c. name c = n) avail)) (course_names avail)"
  by (simp add: course_options_def course_names_eq grouped_courses_def group_by_name_eq comp_def)

lemma itertools_product_set:
  "set (itertools_product pools) = {xs. list_all2 (\<lambda>x pool. x \<in> set pool) xs pools}"
proof (induction pools)
  case Nil
  then show ?case by auto
next
  case (Cons pool pools)
  show ?case
  proof (intro set_eqI iffI)
    fix xs assume "xs \<in> set (itertools_product (pool # pools))"
    with Cons.IH show "xs \<in> {xs. list_all2 (\<lambda>x pool. x \<in> set pool) xs (pool # pools)}"
      by auto
  next
    fix xs assume "xs \<in> {xs. list_all2 (\<lambda>x pool. x \<in> set pool) xs (pool # pools)}"
    then obtain y ys where "xs = y # ys" "y \<in> set pool" "list_all2 (\<lambda>x pool. x \<in> set pool) ys pools"
      by (auto simp: list_all2_Cons2)
    with Cons.IH show "xs \<in> set (itertools_product (pool # pools))"
      by auto
  qed
qed

lemma length_itertools_product:
  "length (itertools_product pools) = prod_list (map length pools)"
  by (induction pools) (auto simp: length_concat comp_def sum_list_triv)

lemma combo_names:
  assumes "cmb \<in> set (itertools_product (course_options avail))"
  shows "map name cmb = course_names avail"
proof -
  have "list_all2 (\<lambda>x pool. x \<in> set pool) cmb (course_options avail)"
    using assms by (simp add: itertools_product_set)
  then have "list_all2 (\<lambda>x n. name x = n) cmb (course_names avail)"
    unfolding course_options_eq list_all2_map2
    by (rule list_all2_mono) auto
  then show ?thesis
    by (simp add: list_all2_conv_all_nth list_eq_iff_nth_eq)
qed

section \<open>Grouping by conflict count and sorting is one stable sort\<close>

lemma concat_filter_groups_mset:
  "distinct ks \<Longrightarrow>
     mset (concat (map (\<lambda>k. filter (\<lambda>x. h x = k) xs) ks)) = mset (filter (\<lambda>x. h x \<in> set ks) xs)"
proof (induction ks)
  case Nil
  then show ?case by simp
next
  case (Cons k ks)
  have "mset (filter (\<lambda>x. h x = k) xs) + mset (filter (\<lambda>x. h x \<in> set ks) xs)
          = mset (filter (\<lambda>x. h x \<in> set (k # ks)) xs)"
    using Cons.prems by (induction xs) auto
  with Cons show ?case by simp
qed

lemma sorted_pair_key_const:
  fixes h :: "'a \<Rightarrow> 'k::linorder" and g :: "'a \<Rightarrow> 'b::linorder"
  assumes "\<forall>x\<in>set ys. h x = k" and "sorted (map g ys)"
  shows "sorted (map (\<lambda>x. (h x, g x)) ys)"
  using assms by (induction ys) auto

lemma concat_groups_sorted:
  fixes h :: "'a \<Rightarrow> 'k::linorder" and g :: "'a \<Rightarrow> 'b::linorder"
  assumes "sorted ks" and "distinct ks"
  shows "sorted (map (\<lambda>x. (h x, g x)) (concat (map (\<lambda>k. sort_key g (filter (\<lambda>x. h x = k) xs)) ks)))"
  using assms
proof (induction ks)
  case Nil
  then show ?case by simp
next
  case (Cons k ks)
  let ?G = "\<lambda>k. sort_key g (filter (\<lambda>x. h x = k) xs)"
  have here: "sorted (map (\<lambda>x. (h x, g x)) (?G k))"
    by (rule sorted_pair_key_const [where k = k]) auto
  have rest: "sorted (map (\<lambda>x. (h x, g x)) (concat (map ?G ks)))"
    using Cons by simp
  have less: "k < k'" if "k' \<in> set ks" for k'
    using Cons.prems that by (auto simp: le_less)
  have cross: "a \<le> b"
    if "a \<in> set (map (\<lambda>x. (h x, g x)) (?G k))"
      and "b \<in> set (map (\<lambda>x. (h x, g x)) (concat (map ?G ks)))" for a b
  proof -
    from that(1) have "fst a = k" by auto
    moreover from that(2) have "fst b \<in> set ks" by auto
    ultimately have "fst a < fst b" using less by simp
    then show ?thesis by (simp add: less_eq_prod_def)
  qed
  have "sorted (map (\<lambda>x. (h x, g x)) (?G k) @ map (\<lambda>x. (h x, g x)) (concat (map ?G ks)))"
    unfolding sorted_append using here rest cross by blast
  then show ?case by simp
qed

lemma sorted_map_const: "\<forall>x\<in>set ys. g x = c \<Longrightarrow> sorted (map g ys)"
  by (induction ys) auto

lemma dict_get_tabulate: "k \<in> set ks \<Longrightarrow> dict_get (map (\<lambda>x. (x, F x)) ks) k = F k"
  by (induction ks) (auto simp: dict_get_def)

lemma concat_single_group:
  "distinct ks \<Longrightarrow> k0 \<in> set ks \<Longrightarrow> concat (map (\<lambda>k. if k = k0 then F else []) ks) = F"
proof (induction ks)
  case Nil
  then show ?case by simp
next
  case (Cons k ks)
  show ?case
  proof (cases "k = k0")
    case True
    with Cons.prems have "k0 \<notin> set ks" by simp
    then have "concat (map (\<lambda>k. if k = k0 then F else []) ks) = []"
      by (induction ks) auto
    with True show ?thesis by simp
  next
    case False
    with Cons show ?thesis by simp
  qed
qed

lemma grouped_sort:
  fixes h :: "'a \<Rightarrow> 'k::linorder" and g :: "'a \<Rightarrow> 'b::linorder"
  assumes srt: "sorted ks" and dist: "distinct ks" and cover: "h ` set xs \<subseteq> set ks"
  shows "sort_key (\<lambda>x. (h x, g x)) xs = concat (map (\<lambda>k. sort_key g (filter (\<lambda>x. h x = k) xs)) ks)"
proof (rule properties_for_sort_key)
  let ?G = "\<lambda>k. sort_key g (filter (\<lambda>x. h x = k) xs)"
  have "mset (concat (map ?G ks)) = mset (concat (map (\<lambda>k. filter (\<lambda>x. h x = k) xs) ks))"
    by (simp add: mset_concat comp_def)
  also have "\<dots> = mset (filter (\<lambda>x. h x \<in> set ks) xs)"
    by (rule concat_filter_groups_mset [OF dist])
  also have "filter (\<lambda>x. h x \<in> set ks) xs = xs"
    using cover by (auto simp: filter_id_conv)
  finally show "mset (concat (map ?G ks)) = mset xs" .
next
  show "sorted (map (\<lambda>x. (h x, g x)) (concat (map (\<lambda>k. sort_key g (filter (\<lambda>x. h x = k) xs)) ks)))"
    by (rule concat_groups_sorted [OF srt dist])
next
  fix s
  let ?G = "\<lambda>k. sort_key g (filter (\<lambda>x. h x = k) xs)"
  let ?P = "\<lambda>x. (h s, g s) = (h x, g x)"
  let ?F = "filter ?P xs"
  assume "s \<in> set (concat (map ?G ks))"
  then have "s \<in> set xs" by auto
  with cover have k0: "h s \<in> set ks" by auto
  have same: "sort_key g ?F = ?F"
    by (rule sort_key_id_if_sorted, rule sorted_map_const [where c = "g s"]) simp
  have "filter ?P (?G k) = (if k = h s then ?F else [])" for k
  proof (cases "k = h s")
    case True
    have "filter ?P (?G k) = sort_key g (filter ?P (filter (\<lambda>x. h x = k) xs))"
      by (rule filter_sort)
    also have "filter ?P (filter (\<lambda>x. h x = k) xs) = ?F"
      using True by (auto intro: filter_cong)
    finally show ?thesis using True same by simp
  next
    case False
    then have "filter ?P (?G k) = []"
      by (auto simp: filter_empty_conv)
    with False show ?thesis by simp
  qed
  then have "filter ?P (concat (map ?G ks)) = concat (map (\<lambda>k. if k = h s then ?F else []) ks)"
    by (simp add: filter_concat comp_def)
  also have "\<dots> = ?F"
    by (rule concat_single_group [OF dist k0])
  finally show "filter ?P (concat (map ?G ks)) = ?F" .
qed

lemma enumerate_loop_eq:
  assumes "\<forall>cmb\<in>set combos. has_all_must_select names cmb"
  shows "enumerate_loop names mx combos cnt d =
     (foldl (\<lambda>d s. dict_append (conflict_count s) s d) d
        (map evaluate (take (nat (mx - cnt)) combos)),
      if nat (mx - cnt) < length combos then [MaxSchedulesReached mx] else [])"
  using assms
proof (induction combos arbitrary: cnt d)
  case Nil
  then show ?case by simp
next
  case (Cons cmb rest)
  show ?case
  proof (cases "mx \<le> cnt")
    case True
    then show ?thesis by simp
  next
    case False
    then have step: "nat (mx - cnt) = Suc (nat (mx - (cnt + 1)))" by simp
    from Cons.prems have ok: "has_all_must_select names cmb"
      and rest: "\<forall>c\<in>set rest. has_all_must_select names c" by simp_all
    show ?thesis
      using False ok Cons.IH [OF rest, of "cnt + 1"] by (simp add: step)
  qed
qed

lemma flatten_schedules_eq:
  "flatten_schedules (foldl (\<lambda>d s. dict_append (conflict_count s) s d) [] items) =
     sort_key three_key items"
proof -
  let ?keys = "first_occurrences (map conflict_count items)"
  let ?d = "map (\<lambda>k. (k, map (\<lambda>s. s) (filter (\<lambda>s. conflict_count s = k) items))) ?keys"
  let ?G = "\<lambda>k. sort_key schedule_key (filter (\<lambda>s. conflict_count s = k) items)"
  have d: "foldl (\<lambda>d s. dict_append (conflict_count s) s d) [] items = ?d"
    by (rule group_fold_eq)
  have "flatten_schedules ?d = concat (map ?G (sort ?keys))"
    unfolding flatten_schedules_def Let_def
    by (rule arg_cong [where f = concat]) (simp add: comp_def dict_get_tabulate)
  also have "\<dots> = sort_key (\<lambda>s. (conflict_count s, schedule_key s)) items"
    by (rule grouped_sort [symmetric]) auto
  also have "(\<lambda>s. (conflict_count s, schedule_key s)) = three_key"
    by (simp add: three_key_def schedule_key_def fun_eq_iff)
  finally show ?thesis using d by simp
qed

section \<open>The time-slot map and the conflict count\<close>

lemma map_fst_slot_entries: "map fst (slot_entries cmb) = all_slots cmb"
  by (induction cmb) (simp_all add: slot_entries_def all_slots_def comp_def)

lemma occupants_entries:
  "map snd (filter (\<lambda>e. fst e = key) (slot_entries cmb)) = occupants cmb key"
proof (induction cmb)
  case Nil
  then show ?case by (simp add: slot_entries_def occupants_def)
next
  case (Cons c cmb)
  have "map snd (filter (\<lambda>e. fst e = key) (map (\<lambda>k. (k, c)) ts)) = replicate (count_list ts key) c"
    for ts
    by (induction ts) auto
  with Cons show ?case
    by (simp add: slot_entries_def occupants_def)
qed

lemma time_slot_map_fold:
  "foldl (\<lambda>m c. foldl (\<lambda>m' key. dict_append key c m') m (time_slots c)) m0 cmb =
     foldl (\<lambda>m e. dict_append (fst e) (snd e) m) m0 (slot_entries cmb)"
proof (induction cmb arbitrary: m0)
  case Nil
  then show ?case by (simp add: slot_entries_def)
next
  case (Cons c cmb)
  have inner: "foldl (\<lambda>m' key. dict_append key c m') m ts =
                 foldl (\<lambda>m e. dict_append (fst e) (snd e) m) m (map (\<lambda>key. (key, c)) ts)"
    for m :: "((string \<times> int) \<times> course list) list" and ts
    by (induction ts arbitrary: m) simp_all
  have "slot_entries (c # cmb) = map (\<lambda>key. (key, c)) (time_slots c) @ slot_entries cmb"
    by (simp add: slot_entries_def)
  then show ?case
    using Cons.IH by (simp add: inner)
qed

lemma time_slot_map_eq:
  "time_slot_map cmb = map (\<lambda>key. (key, occupants cmb key)) (first_occurrences (all_slots cmb))"
  unfolding time_slot_map_def time_slot_map_fold
  by (simp add: group_fold_eq occupants_entries map_fst_slot_entries)

lemma foldl_conflict_step:
  "foldl conflict_step (cs, n) tsm =
     (cs @ map (\<lambda>((day, period), l). (day, period, l)) (filter (\<lambda>(key, l). 1 < length l) tsm),
      n + (\<Sum>(key, l)\<leftarrow>tsm. if 1 < length l then int (length l) - 1 else 0))"
proof (induction tsm arbitrary: cs n)
  case Nil
  then show ?case by simp
next
  case (Cons e tsm)
  obtain day period l where e: "e = ((day, period), l)" by (metis surj_pair)
  show ?case
    using Cons.IH by (simp add: e)
qed

lemma length_occupants: "length (occupants cmb key) = count_list (all_slots cmb) key"
  by (induction cmb) (simp_all add: occupants_def all_slots_def)

lemma sum_list_indicator:
  "distinct ks \<Longrightarrow> (\<Sum>k\<leftarrow>ks. if x = k then 1 else 0) = (if x \<in> set ks then 1 else (0::nat))"
  by (induction ks) auto

lemma sum_list_minus_one:
  "(\<Sum>k\<leftarrow>ks. int (f k) - 1) = int (\<Sum>k\<leftarrow>ks. f k) - int (length ks)"
  by (induction ks) simp_all

lemma sum_count_list_distinct:
  "distinct ks \<Longrightarrow> set xs \<subseteq> set ks \<Longrightarrow> (\<Sum>k\<leftarrow>ks. count_list xs k) = length xs"
proof (induction xs)
  case Nil
  then show ?case by simp
next
  case (Cons x xs)
  have "(\<Sum>k\<leftarrow>ks. count_list (x # xs) k) = (\<Sum>k\<leftarrow>ks. count_list xs k + (if x = k then 1 else 0))"
    by (rule arg_cong [where f = sum_list]) auto
  also have "\<dots> = (\<Sum>k\<leftarrow>ks. count_list xs k) + (\<Sum>k\<leftarrow>ks. if x = k then 1 else 0)"
    by (simp add: sum_list_addf)
  also have "(\<Sum>k\<leftarrow>ks. if x = k then 1 else 0) = (1::nat)"
    using Cons.prems by (simp add: sum_list_indicator)
  finally show ?case using Cons by simp
qed

lemma conflict_count_evaluate:
  "conflict_count (evaluate cmb) =
     (\<Sum>key\<leftarrow>first_occurrences (all_slots cmb).
        if 2 \<le> length (occupants cmb key) then int (length (occupants cmb key)) - 1 else 0)"
  by (simp add: evaluate_def find_conflicts_def foldl_conflict_step time_slot_map_eq comp_def
      Suc_le_eq numeral_2_eq_2 split: prod.splits)

lemma conflict_count_length_card:
  "conflict_count (evaluate cmb) = int (length (all_slots cmb)) - int (card (set (all_slots cmb)))"
proof -
  let ?ks = "first_occurrences (all_slots cmb)"
  have pos: "1 \<le> count_list (all_slots cmb) k" if "k \<in> set ?ks" for k
  proof -
    from that have "count_list (all_slots cmb) k \<noteq> 0"
      by (simp add: count_list_0_iff)
    then show ?thesis by simp
  qed
  have "conflict_count (evaluate cmb) = (\<Sum>k\<leftarrow>?ks. int (count_list (all_slots cmb) k) - 1)"
    unfolding conflict_count_evaluate length_occupants
    by (rule arg_cong [where f = sum_list], rule map_cong [OF refl]) (use pos in force)
  also have "\<dots> = int (\<Sum>k\<leftarrow>?ks. count_list (all_slots cmb) k) - int (length ?ks)"
    by (rule sum_list_minus_one)
  also have "(\<Sum>k\<leftarrow>?ks. count_list (all_slots cmb) k) = length (all_slots cmb)"
    by (rule sum_count_list_distinct) simp_all
  also have "length ?ks = card (set (all_slots cmb))"
    by (metis distinct_card distinct_first_occurrences set_first_occurrences)
  finally show ?thesis .
qed

section \<open>What generate_schedules computes\<close>

lemma combo_evaluate [simp]: "combo (evaluate cmb) = cmb"
  by (simp add: evaluate_def split: prod.splits)

lemma missing_must_select_None:
  "missing_must_select names avail = None \<longleftrightarrow> (\<forall>n\<in>set names. \<exists>c\<in>set avail. name c = n)"
  by (auto simp: missing_must_select_def find_None_iff list_ex_iff)

lemma missing_must_select_Some:
  "missing_must_select names avail = Some n \<Longrightarrow> n \<in> set names \<and> (\<forall>c\<in>set avail. name c \<noteq> n)"
  by (auto simp: missing_must_select_def find_Some_iff list_ex_iff)

lemma set_course_names: "set (course_names avail) = name ` set avail"
  by (simp add: course_names_eq)

lemma product_has_all_must_select:
  assumes "missing_must_select names avail = None"
    and "cmb \<in> set (itertools_product (course_options avail))"
  shows "has_all_must_select names cmb"
proof -
  have "name ` set cmb = name ` set avail"
    using combo_names [OF assms(2)] set_course_names [of avail] by (metis set_map)
  with assms(1) show ?thesis
    unfolding has_all_must_select_def list_all_iff list_ex_iff missing_must_select_None
    by (metis imageE image_eqI)
qed

lemma generate_schedules_eq:
  "generate_schedules courses required_courses elective_courses mx =
     (case missing_must_select (must_select_names required_courses) (available_courses courses) of
        Some n \<Rightarrow> ([MissingMustSelect n], [])
      | None \<Rightarrow>
          (if nat mx < length (itertools_product (course_options (available_courses courses)))
           then [MaxSchedulesReached mx] else [],
           sort_key three_key
             (map evaluate
                (take (nat mx) (itertools_product (course_options (available_courses courses)))))))"
proof (cases "missing_must_select (must_select_names required_courses) (available_courses courses)")
  case None
  let ?P = "itertools_product (course_options (available_courses courses))"
  have "\<forall>cmb\<in>set ?P. has_all_must_select (must_select_names required_courses) cmb"
    using None by (blast intro: product_has_all_must_select)
  from enumerate_loop_eq [OF this, of mx 0 "[]"] None show ?thesis
    by (simp add: generate_schedules_def flatten_schedules_eq)
next
  case (Some n)
  then show ?thesis by (simp add: generate_schedules_def)
qed

lemma generate_schedules_result:
  "snd (generate_schedules courses required_courses elective_courses mx) =
     (if missing_must_select (must_select_names required_courses) (available_courses courses) = None
      then sort_key three_key
             (map evaluate
                (take (nat mx) (itertools_product (course_options (available_courses courses)))))
      else [])"
  by (simp add: generate_schedules_eq split: option.splits)

lemma result_from_product:
  assumes "s \<in> set (snd (generate_schedules courses required_courses elective_courses mx))"
  shows "\<exists>cmb\<in>set (itertools_product (course_options (available_courses courses))). s = evaluate cmb"
  using assms by (auto simp: generate_schedules_result split: if_splits dest: in_set_takeD)

text \<open>
  Claim C1. If some section of \<open>required_courses\<close> is marked must-select and no section
  of that name is left in the pool once the temporarily excluded sections are removed, then
  \<open>generate_schedules\<close> reports a missing must-select course and returns the empty list,
  whatever the budget; the name reported is a must-select name with no available section.
\<close>

theorem missing_must_select_fails:
  assumes "c \<in> set required_courses" and "must_select c"
    and "\<forall>a\<in>set courses. \<not> temporarily_exclude a \<longrightarrow> name a \<noteq> name c"
  shows "\<exists>n. generate_schedules courses required_courses elective_courses max_schedules
               = ([MissingMustSelect n], [])
           \<and> n \<in> name ` {r \<in> set required_courses. must_select r}
           \<and> (\<forall>a\<in>set courses. \<not> temporarily_exclude a \<longrightarrow> name a \<noteq> n)"
proof -
  let ?names = "must_select_names required_courses"
  let ?avail = "available_courses courses"
  have "name c \<in> set ?names"
    using assms(1,2) by (simp add: must_select_names_def)
  moreover have "\<forall>a\<in>set ?avail. name a \<noteq> name c"
    using assms(3) by (simp add: available_courses_def)
  ultimately have "missing_must_select ?names ?avail \<noteq> None"
    by (auto simp: missing_must_select_None)
  then obtain n where n: "missing_must_select ?names ?avail = Some n" by auto
  from missing_must_select_Some [OF n]
  have "n \<in> name ` {r \<in> set required_courses. must_select r}"
    and "\<forall>a\<in>set courses. \<not> temporarily_exclude a \<longrightarrow> name a \<noteq> n"
    by (auto simp: must_select_names_def available_courses_def)
  with n show ?thesis
    by (simp add: generate_schedules_def)
qed

theorem missing_must_select_fails_witness:
  "must_select ex_excluded \<and> temporarily_exclude ex_excluded
     \<and> generate_schedules [ex_A, ex_excluded] [ex_A, ex_excluded] [] 1000
           = ([MissingMustSelect ''Z''], [])"
proof -
  have h1: "ex_excluded \<in> set [ex_A, ex_excluded]" by simp
  have h2: "must_select ex_excluded" by (simp add: ex_excluded_def section_of_def)
  have h3: "\<forall>a\<in>set [ex_A, ex_excluded]. \<not> temporarily_exclude a \<longrightarrow> name a \<noteq> name ex_excluded"
    by (simp add: ex_excluded_def ex_A_def section_of_def)
  from missing_must_select_fails [OF h1 h2 h3, of "[]" 1000]
  obtain n where n: "generate_schedules [ex_A, ex_excluded] [ex_A, ex_excluded] [] 1000
                       = ([MissingMustSelect n], [])"
    and "n \<in> name ` {r \<in> set [ex_A, ex_excluded]. must_select r}"
    by blast
  then have "n = ''Z''"
    by (auto simp: ex_excluded_def ex_A_def section_of_def)
  with n h2 show ?thesis by (simp add: ex_excluded_def section_of_def)
qed

text \<open>
  Claim C2. When the must-select check passes, every returned candidate has the names of
  the course groups, in their order: one section, taken from the filtered pool, for each
  distinct name of the filtered pool, so as many sections as there are groups. Every tuple
  of the product passes the per-candidate must-select test.
\<close>

theorem one_section_per_name:
  assumes "missing_must_select (must_select_names required_courses) (available_courses courses) = None"
  shows "(\<forall>s\<in>set (snd (generate_schedules courses required_courses elective_courses max_schedules)).
            map name (combo s) = course_names (available_courses courses)
          \<and> length (combo s) = length (grouped_courses (available_courses courses))
          \<and> set (combo s) \<subseteq> set (available_courses courses))
       \<and> distinct (course_names (available_courses courses))
       \<and> set (course_names (available_courses courses)) = name ` set (available_courses courses)
       \<and> (\<forall>cmb\<in>set (itertools_product (course_options (available_courses courses))).
            has_all_must_select (must_select_names required_courses) cmb)"
proof -
  let ?avail = "available_courses courses"
  let ?P = "itertools_product (course_options ?avail)"
  have members: "set cmb \<subseteq> set ?avail" if "cmb \<in> set ?P" for cmb
  proof
    fix x assume "x \<in> set cmb"
    then obtain i where i: "i < length cmb" "cmb ! i = x"
      by (auto simp: in_set_conv_nth)
    from that have la: "list_all2 (\<lambda>x pool. x \<in> set pool) cmb (course_options ?avail)"
      by (simp add: itertools_product_set)
    then have len: "length cmb = length (course_options ?avail)"
      by (rule list_all2_lengthD)
    from la i have "x \<in> set (course_options ?avail ! i)"
      by (auto simp: list_all2_conv_all_nth)
    moreover have "course_options ?avail ! i \<in> set (course_options ?avail)"
      using i(1) len by simp
    then have "set (course_options ?avail ! i) \<subseteq> set ?avail"
      unfolding course_options_eq by auto
    ultimately show "x \<in> set ?avail" by blast
  qed
  have cands: "map name (combo s) = course_names ?avail
          \<and> length (combo s) = length (grouped_courses ?avail)
          \<and> set (combo s) \<subseteq> set ?avail"
    if "s \<in> set (snd (generate_schedules courses required_courses elective_courses max_schedules))" for s
  proof -
    from result_from_product [OF that] obtain cmb where cmb: "cmb \<in> set ?P" "s = evaluate cmb"
      by blast
    from combo_names [OF cmb(1)] have names: "map name cmb = course_names ?avail" .
    then have "length cmb = length (course_names ?avail)"
      by (metis length_map)
    then have "length cmb = length (grouped_courses ?avail)"
      by (simp add: course_names_def)
    with names members [OF cmb(1)] cmb(2) show ?thesis by simp
  qed
  have dist: "distinct (course_names ?avail)"
    by (simp add: course_names_eq)
  have every: "\<forall>cmb\<in>set ?P. has_all_must_select (must_select_names required_courses) cmb"
    using assms by (blast intro: product_has_all_must_select)
  show ?thesis
    using cands dist set_course_names [of ?avail] every by (intro conjI ballI) simp_all
qed

theorem one_section_per_name_witness:
  "missing_must_select (must_select_names ex_required) (available_courses ex_pool) = None
     \<and> map (\<lambda>s. map name (combo s)) (snd (generate_schedules ex_pool ex_required [ex_C] 1000))
           = [[''A'', ''X'', ''B'', ''C''], [''A'', ''X'', ''B'', ''C'']]
     \<and> length (grouped_courses (available_courses ex_pool)) = 4
     \<and> list_all (has_all_must_select (must_select_names ex_required))
          (itertools_product (course_options (available_courses ex_pool)))"
proof -
  have h: "missing_must_select (must_select_names ex_required) (available_courses ex_pool) = None"
    by code_simp
  have len: "length (snd (generate_schedules ex_pool ex_required [ex_C] 1000)) = 2"
    by code_simp
  have names: "course_names (available_courses ex_pool) = [''A'', ''X'', ''B'', ''C'']"
    by code_simp
  note inst = one_section_per_name [OF h, of "[ex_C]" 1000]
  from inst have "\<forall>s\<in>set (snd (generate_schedules ex_pool ex_required [ex_C] 1000)).
                   map name (combo s) = [''A'', ''X'', ''B'', ''C'']"
    using names by simp
  then have "map (\<lambda>s. map name (combo s)) (snd (generate_schedules ex_pool ex_required [ex_C] 1000))
               = replicate (length (snd (generate_schedules ex_pool ex_required [ex_C] 1000)))
                   [''A'', ''X'', ''B'', ''C'']"
    by (simp add: map_replicate_const [symmetric] cong: map_cong)
  then have a: "map (\<lambda>s. map name (combo s)) (snd (generate_schedules ex_pool ex_required [ex_C] 1000))
                  = [[''A'', ''X'', ''B'', ''C''], [''A'', ''X'', ''B'', ''C'']]"
    by (simp add: len numeral_2_eq_2)
  have b: "length (grouped_courses (available_courses ex_pool)) = 4"
    using names by (simp add: course_names_def  flip: length_map [of fst])
  from inst have c: "list_all (has_all_must_select (must_select_names ex_required))
          (itertools_product (course_options (available_courses ex_pool)))"
    by (simp add: list_all_iff)
  from h a b c show ?thesis by simp
qed

section \<open>Conflicts of a candidate\<close>

lemma sum_list_pos_zero_iff:
  fixes xs :: "int list"
  shows "\<forall>x\<in>set xs. 0 < x \<Longrightarrow> sum_list xs = 0 \<longleftrightarrow> xs = []"
proof (induction xs)
  case Nil
  then show ?case by simp
next
  case (Cons x xs)
  from Cons.prems have "\<forall>y\<in>set xs. 0 \<le> y" by auto
  then have "0 \<le> sum_list xs" by (simp add: sum_list_nonneg)
  with Cons.prems show ?case by simp
qed

lemma dict_get_time_slot_map: "dict_get (time_slot_map cmb) key = occupants cmb key"
proof (cases "key \<in> set (all_slots cmb)")
  case True
  then show ?thesis
    by (simp add: time_slot_map_eq dict_get_tabulate)
next
  case False
  then have "map_of (time_slot_map cmb) key = None"
    by (simp add: time_slot_map_eq map_of_eq_None_iff image_iff)
  moreover have "occupants cmb key = []"
    using False length_occupants [of cmb key] by (simp add: count_list_0_iff)
  ultimately show ?thesis by (simp add: dict_get_def)
qed

lemma conflicts_evaluate:
  "conflicts (evaluate cmb) =
     (let cs = map (\<lambda>((day, period), l). (day, period, l))
                 (filter (\<lambda>(key, l). 2 \<le> length l) (time_slot_map cmb))
      in if cs = [] then None else Some cs)"
proof -
  let ?big = "filter (\<lambda>(key, l). 1 < length l) (time_slot_map cmb)"
  have two: "(\<lambda>(key, l). 2 \<le> length l) = (\<lambda>(key :: string \<times> int, l :: course list). 1 < length l)"
    by (auto simp: fun_eq_iff)
  have n: "snd (find_conflicts cmb) = (\<Sum>(key, l)\<leftarrow>?big. int (length l) - 1)"
    unfolding find_conflicts_def foldl_conflict_step
    by (simp add: sum_list_map_filter' case_prod_unfold)
  have "\<forall>x\<in>set (map (\<lambda>(key, l). int (length l) - 1) ?big). 0 < x"
    by auto
  from sum_list_pos_zero_iff [OF this] n
  have "snd (find_conflicts cmb) = 0 \<longleftrightarrow> ?big = []" by simp
  then show ?thesis
    unfolding two
    by (simp add: evaluate_def find_conflicts_def foldl_conflict_step Let_def split: prod.splits)
qed

lemma conflict_count_zero_iff: "conflict_count (evaluate cmb) = 0 \<longleftrightarrow> conflicts (evaluate cmb) = None"
  by (simp add: evaluate_def split: prod.splits)

lemma count_list_distinct:
  "distinct xs \<Longrightarrow> count_list xs k = (if k \<in> set xs then 1 else 0)"
  by (induction xs) auto

lemma occupants_distinct_slots:
  assumes "\<forall>c\<in>set cmb. distinct (time_slots c)"
  shows "occupants cmb key = occupying_sections cmb key"
  using assms
  by (induction cmb) (simp_all add: occupants_def occupying_sections_def count_list_distinct)

lemma distinct_result_combo:
  assumes "s \<in> set (snd (generate_schedules courses required_courses elective_courses max_schedules))"
  shows "distinct (combo s)"
proof -
  from result_from_product [OF assms] obtain cmb
    where cmb: "cmb \<in> set (itertools_product (course_options (available_courses courses)))"
      and s: "s = evaluate cmb"
    by blast
  have "distinct (map name cmb)"
    using combo_names [OF cmb] by (simp add: course_names_eq)
  then show ?thesis
    unfolding s combo_evaluate by (rule distinct_map [THEN iffD1, THEN conjunct1])
qed

text \<open>
  A required section that lists the slot Monday 1 twice, alone in the pool. One section
  occupies the slot, so the sum of the number of occupying sections minus one, over the
  slots with at least two occupying sections, is zero; the conflict count of the one
  candidate is one, and the generate button stores it among the timetables with conflicts.
\<close>

theorem occupying_sections_counterexample:
  "map (\<lambda>s. (combo s, conflict_count s)) (snd (generate_schedules [ex_twice_required] [ex_twice_required] [] 1000))
       = [([ex_twice_required], 1)]
     \<and> map fst (time_slot_map [ex_twice_required]) = [(''Mon'', 1)]
     \<and> occupying_sections [ex_twice_required] (''Mon'', 1) = [ex_twice_required]
     \<and> (\<Sum>key\<leftarrow>map fst (time_slot_map [ex_twice_required]).
           if 2 \<le> length (occupying_sections [ex_twice_required] key)
           then int (length (occupying_sections [ex_twice_required] key)) - 1 else 0) = 0
     \<and> generate_button ConflictsFirst [ex_twice_required] ([], [])
         = ([Generated], [], [evaluate [ex_twice_required]])"
  by code_simp

text \<open>
  Claim C3, as amended. For every returned candidate, the time-slot map has one entry per
  slot listed by its sections, holding the occupants of that slot, where a section is an
  occupant once for each time its \<open>time_slots\<close> list the slot. \<open>conflict_count\<close> is the
  sum, over the keys of that map, of the number of occupants minus one for the keys with
  at least two occupants (so three occupants of one slot contribute two), which is the sum
  of \<open>max 0 (occupants - 1)\<close> over the slots. The sections of a candidate are distinct,
  and when none of them lists a slot twice the occupants of a slot are the sections
  occupying it, so that the count is then over the number of occupying sections. The
  conflicts are the entries with at least two occupants, replaced by \<^verbatim>\<open>None\<close> when there
  is none, and \<open>conflict_count\<close> is zero exactly when there are no conflicts.
\<close>

theorem conflict_count_formula:
  assumes "s \<in> set (snd (generate_schedules courses required_courses elective_courses max_schedules))"
  shows "distinct (map fst (time_slot_map (combo s)))
       \<and> set (map fst (time_slot_map (combo s))) = set (all_slots (combo s))
       \<and> (\<forall>key. dict_get (time_slot_map (combo s)) key = occupants (combo s) key)
       \<and> conflict_count s =
           (\<Sum>key\<in>set (map fst (time_slot_map (combo s))).
              if 2 \<le> length (dict_get (time_slot_map (combo s)) key)
              then int (length (dict_get (time_slot_map (combo s)) key)) - 1 else 0)
       \<and> conflict_count s =
           (\<Sum>key\<in>set (all_slots (combo s)). max 0 (int (length (occupants (combo s) key)) - 1))
       \<and> distinct (combo s)
       \<and> ((\<forall>c\<in>set (combo s). distinct (time_slots c)) \<longrightarrow>
            (\<forall>key. occupants (combo s) key = occupying_sections (combo s) key)
            \<and> conflict_count s =
                (\<Sum>key\<in>set (all_slots (combo s)).
                   max 0 (int (card {c \<in> set (combo s). key \<in> set (time_slots c)}) - 1)))
       \<and> conflicts s =
           (let cs = map (\<lambda>((day, period), l). (day, period, l))
                       (filter (\<lambda>(key, l). 2 \<le> length l) (time_slot_map (combo s)))
            in if cs = [] then None else Some cs)
       \<and> (conflict_count s = 0 \<longleftrightarrow> conflicts s = None)"
proof -
  from result_from_product [OF assms] obtain cmb where s: "s = evaluate cmb" by blast
  let ?ks = "first_occurrences (all_slots cmb)"
  let ?f = "\<lambda>key. if 2 \<le> length (occupants cmb key) then int (length (occupants cmb key)) - 1 else 0"
  have keys: "map fst (time_slot_map cmb) = ?ks"
    by (simp add: time_slot_map_eq comp_def)
  have "conflict_count (evaluate cmb) = sum_list (map ?f ?ks)"
    by (rule conflict_count_evaluate)
  also have "\<dots> = sum ?f (set ?ks)"
    by (rule sum.distinct_set_conv_list [symmetric]) simp
  finally have cc: "conflict_count (evaluate cmb) = sum ?f (set (all_slots cmb))" by simp
  have "?f key = max 0 (int (length (occupants cmb key)) - 1)" for key
    by auto
  with cc have cc_max: "conflict_count (evaluate cmb) =
      (\<Sum>key\<in>set (all_slots cmb). max 0 (int (length (occupants cmb key)) - 1))"
    by simp
  have dist: "distinct cmb"
    using distinct_result_combo [OF assms] by (simp add: s)
  have sections: "(\<forall>key. occupants cmb key = occupying_sections cmb key)
            \<and> conflict_count (evaluate cmb) =
                (\<Sum>key\<in>set (all_slots cmb).
                   max 0 (int (card {c \<in> set cmb. key \<in> set (time_slots c)}) - 1))"
    if once: "\<forall>c\<in>set cmb. distinct (time_slots c)"
  proof -
    have occ: "occupants cmb key = occupying_sections cmb key" for key
      by (rule occupants_distinct_slots [OF once])
    have "length (occupying_sections cmb key) = card {c \<in> set cmb. key \<in> set (time_slots c)}"
      for key
      unfolding occupying_sections_def using dist
      by (simp add: distinct_length_filter Int_def conj_commute)
    with cc_max occ show ?thesis by simp
  qed
  show ?thesis
    unfolding s combo_evaluate dict_get_time_slot_map
    using keys cc cc_max dist sections conflicts_evaluate [of cmb] conflict_count_zero_iff [of cmb]
    by simp
qed

theorem conflict_count_formula_witness:
  "conflict_count (snd (generate_schedules ex_pool ex_required [ex_C] 1000) ! 1) = 2
     \<and> list_all (\<lambda>c. distinct (time_slots c))
          (combo (snd (generate_schedules ex_pool ex_required [ex_C] 1000) ! 1))
     \<and> occupants (combo (snd (generate_schedules ex_pool ex_required [ex_C] 1000) ! 1)) (''Mon'', 1)
           = [ex_A, ex_X1, ex_B]
     \<and> occupants (combo (snd (generate_schedules ex_pool ex_required [ex_C] 1000) ! 1)) (''Mon'', 1)
           = occupying_sections
               (combo (snd (generate_schedules ex_pool ex_required [ex_C] 1000) ! 1)) (''Mon'', 1)
     \<and> conflict_count (snd (generate_schedules ex_pool ex_required [ex_C] 1000) ! 1) =
           (\<Sum>key\<in>set (all_slots (combo (snd (generate_schedules ex_pool ex_required [ex_C] 1000) ! 1))).
              max 0 (int (length (occupants
                (combo (snd (generate_schedules ex_pool ex_required [ex_C] 1000) ! 1)) key)) - 1))
     \<and> conflict_count (snd (generate_schedules ex_pool ex_required [ex_C] 1000) ! 1) =
           (\<Sum>key\<in>set (all_slots (combo (snd (generate_schedules ex_pool ex_required [ex_C] 1000) ! 1))).
              max 0 (int (card {c \<in> set (combo (snd (generate_schedules ex_pool ex_required [ex_C] 1000) ! 1)).
                                key \<in> set (time_slots c)}) - 1))
     \<and> conflicts (snd (generate_schedules ex_pool ex_required [ex_C] 1000) ! 1)
           = Some [(''Mon'', 1, [ex_A, ex_X1, ex_B])]"
proof -
  let ?r = "snd (generate_schedules ex_pool ex_required [ex_C] 1000)"
  have "length ?r = 2" by code_simp
  then have mem: "?r ! 1 \<in> set ?r" by simp
  have a: "conflict_count (?r ! 1) = 2" by code_simp
  have b: "occupants (combo (?r ! 1)) (''Mon'', 1) = [ex_A, ex_X1, ex_B]" by code_simp
  have c: "conflicts (?r ! 1) = Some [(''Mon'', 1, [ex_A, ex_X1, ex_B])]" by code_simp
  have d: "list_all (\<lambda>c. distinct (time_slots c)) (combo (?r ! 1))" by code_simp
  then have once: "\<forall>c\<in>set (combo (?r ! 1)). distinct (time_slots c)"
    by (simp add: list_all_iff)
  from conflict_count_formula [OF mem] once a b c d show ?thesis by blast
qed

text \<open>
  A section that lists the slot Monday 1 twice, alone in the pool: the one candidate has
  that section as two occupants of the slot and a conflict count of one. The listings of
  a section are not deduplicated.
\<close>

theorem duplicate_slot_counterexample:
  "time_slots ex_twice = [(''Mon'', 1), (''Mon'', 1)]
     \<and> map (\<lambda>s. (combo s, conflict_count s, conflicts s))
           (snd (generate_schedules [ex_twice] [] [] 1000))
         = [([ex_twice], 1, Some [(''Mon'', 1, [ex_twice, ex_twice])])]"
  by code_simp

text \<open>
  Claim C6, as amended. Repeated (day, period) pairs in the \<open>time_slots\<close> of a section are
  kept: every listing is an occupant of its slot, so the conflict count of a candidate is
  the number of slot listings of its sections minus the number of distinct slots listed.
  A candidate made of a single section has no conflict exactly when that section lists no
  slot twice, and a pool of one available section yields that single-section candidate.
\<close>

theorem duplicate_slots_counted:
  "conflict_count (evaluate cmb) = int (length (all_slots cmb)) - int (card (set (all_slots cmb)))
     \<and> (conflict_count (evaluate [c]) = 0 \<longleftrightarrow> distinct (time_slots c))
     \<and> (\<not> temporarily_exclude c \<and> 0 < max_schedules
            \<and> missing_must_select (must_select_names required_courses) [c] = None
          \<longrightarrow> snd (generate_schedules [c] required_courses elective_courses max_schedules)
                = [evaluate [c]])"
proof -
  have one: "conflict_count (evaluate [c]) = 0 \<longleftrightarrow> distinct (time_slots c)"
  proof -
    have "card (set (time_slots c)) \<le> length (time_slots c)"
      by (rule card_length)
    then have "int (length (time_slots c)) - int (card (set (time_slots c))) = 0
                 \<longleftrightarrow> card (set (time_slots c)) = length (time_slots c)"
      by linarith
    then show ?thesis
      by (simp add: conflict_count_length_card all_slots_def distinct_card card_distinct
          cong: conj_cong) (metis card_distinct distinct_card)
  qed
  have gen: "snd (generate_schedules [c] required_courses elective_courses max_schedules)
               = [evaluate [c]]"
    if "\<not> temporarily_exclude c" and "0 < max_schedules"
      and "missing_must_select (must_select_names required_courses) [c] = None"
  proof -
    have avail: "available_courses [c] = [c]"
      using that(1) by (simp add: available_courses_def)
    have "course_options [c] = [[c]]"
      by (simp add: course_options_eq course_names_eq first_occurrences_def)
    moreover have "take (nat max_schedules) [[c]] = [[c]]"
      using that(2) by (cases "nat max_schedules") simp_all
    ultimately show ?thesis
      using that(3) by (simp add: generate_schedules_result avail)
  qed
  from one gen conflict_count_length_card [of cmb] show ?thesis by blast
qed

theorem duplicate_slots_counted_witness:
  "\<not> temporarily_exclude ex_twice
     \<and> missing_must_select (must_select_names []) [ex_twice] = None
     \<and> snd (generate_schedules [ex_twice] [] [] 1000) = [evaluate [ex_twice]]
     \<and> conflict_count (evaluate [ex_twice]) = 1
     \<and> \<not> distinct (time_slots ex_twice)"
proof -
  have h1: "\<not> temporarily_exclude ex_twice" by code_simp
  have h2: "(0::int) < 1000" by simp
  have h3: "missing_must_select (must_select_names []) [ex_twice] = None" by code_simp
  have slots: "all_slots [ex_twice] = [(''Mon'', 1), (''Mon'', 1)]" by code_simp
  note inst = duplicate_slots_counted [of "[ex_twice]" ex_twice 1000 "[]" "[]"]
  from inst h1 h2 h3 have "snd (generate_schedules [ex_twice] [] [] 1000) = [evaluate [ex_twice]]"
    by blast
  moreover from inst have "conflict_count (evaluate [ex_twice]) = 1"
    by (simp add: slots)
  moreover from inst this have "\<not> distinct (time_slots ex_twice)"
    by simp
  ultimately show ?thesis using h1 h3 by blast
qed

section \<open>Order of the returned list and the budget\<close>

lemma sorted_generate_schedules:
  "sorted (map three_key (snd (generate_schedules courses required_courses elective_courses mx)))"
  by (simp add: generate_schedules_result)

lemma groups_nonempty:
  assumes "pool \<in> set (course_options avail)"
  shows "pool \<noteq> []"
proof -
  from assms obtain n where n: "n \<in> name ` set avail"
    and pool: "pool = sort_key group_key (filter (\<lambda>c. name c = n) avail)"
    by (auto simp: course_options_eq set_course_names)
  from n have "filter (\<lambda>c. name c = n) avail \<noteq> []"
    by (auto simp: filter_empty_conv)
  then have "length pool \<noteq> 0"
    unfolding pool by simp
  then show ?thesis by auto
qed

lemma product_nonempty: "itertools_product (course_options avail) \<noteq> []"
proof -
  have "0 < prod_list (map length pools)" if "\<forall>pool\<in>set pools. pool \<noteq> []"
    for pools :: "course list list"
    using that by (induction pools) auto
  from this [of "course_options avail"] groups_nonempty [of _ avail]
  have "0 < length (itertools_product (course_options avail))"
    by (simp add: length_itertools_product)
  then show ?thesis by auto
qed

lemma enumerate_loop_cut:
  assumes "\<forall>cmb\<in>set pre. has_all_must_select names cmb"
    and "cnt + int (length pre) = mx" and "rest \<noteq> []"
  shows "enumerate_loop names mx (pre @ rest) cnt d =
           (foldl (\<lambda>d s. dict_append (conflict_count s) s d) d (map evaluate pre),
            [MaxSchedulesReached mx])"
  using assms
proof (induction pre arbitrary: cnt d)
  case Nil
  then obtain r rs where "rest = r # rs" by (cases rest) auto
  with Nil show ?case by simp
next
  case (Cons cmb pre)
  from Cons.prems have "cnt < mx" and "cnt + 1 + int (length pre) = mx"
    and "has_all_must_select names cmb" and "\<forall>c\<in>set pre. has_all_must_select names c"
    by simp_all
  with Cons.IH [of "cnt + 1"] Cons.prems(3) show ?case by simp
qed

text \<open>
  Claim C5. The returned list is sorted by the three-key comparator: of two neighbours, the
  earlier has the smaller conflict count, or the same conflict count and the larger total
  priority, or the same of both and at least as many total credits.
\<close>

theorem generated_three_key_order:
  "sorted (map three_key (snd (generate_schedules courses required_courses elective_courses max_schedules)))
     \<and> (\<forall>i. Suc i < length (snd (generate_schedules courses required_courses elective_courses max_schedules)) \<longrightarrow>
          (let a = snd (generate_schedules courses required_courses elective_courses max_schedules) ! i;
               b = snd (generate_schedules courses required_courses elective_courses max_schedules) ! Suc i
           in conflict_count a < conflict_count b
              \<or> conflict_count a = conflict_count b \<and> total_priority b < total_priority a
              \<or> conflict_count a = conflict_count b \<and> total_priority a = total_priority b
                  \<and> total_credits b \<le> total_credits a))"
proof -
  let ?r = "snd (generate_schedules courses required_courses elective_courses max_schedules)"
  have srt: "sorted (map three_key ?r)"
    by (rule sorted_generate_schedules)
  have "three_key (?r ! i) \<le> three_key (?r ! Suc i)" if "Suc i < length ?r" for i
    using srt that by (simp add: sorted_iff_nth_Suc)
  then have "\<forall>i. Suc i < length ?r \<longrightarrow>
      (let a = ?r ! i; b = ?r ! Suc i
       in conflict_count a < conflict_count b
          \<or> conflict_count a = conflict_count b \<and> total_priority b < total_priority a
          \<or> conflict_count a = conflict_count b \<and> total_priority a = total_priority b
              \<and> total_credits b \<le> total_credits a)"
    unfolding three_key_def Let_def less_eq_prod_simp less_prod_simp by force
  with srt show ?thesis by (rule conjI)
qed

theorem generated_three_key_order_witness:
  "map three_key (snd (generate_schedules ex_pool ex_required [ex_C] 1000))
       = [(1, - 17, - 10), (2, - 14, - 10)]
     \<and> conflict_count (snd (generate_schedules ex_pool ex_required [ex_C] 1000) ! 0)
         < conflict_count (snd (generate_schedules ex_pool ex_required [ex_C] 1000) ! 1)"
proof -
  let ?r = "snd (generate_schedules ex_pool ex_required [ex_C] 1000)"
  have keys: "map three_key ?r = [(1, - 17, - 10), (2, - 14, - 10)]" by code_simp
  then have len: "Suc 0 < length ?r"
    by (metis length_map length_Cons list.size(3) lessI)
  have ne: "conflict_count (?r ! 0) \<noteq> conflict_count (?r ! 1)" by code_simp
  from generated_three_key_order [of ex_pool ex_required "[ex_C]" 1000] len
  have "conflict_count (?r ! 0) < conflict_count (?r ! 1)
          \<or> conflict_count (?r ! 0) = conflict_count (?r ! 1)"
    unfolding Let_def by (metis One_nat_def)
  with ne keys show ?thesis by simp
qed

text \<open>
  Claim C4. The returned list never has more than \<open>max_schedules\<close> candidates (none for a
  budget of zero or less). With a budget of zero the result is empty, and the warning is
  shown when the must-select check passed. When the product has more tuples than the
  budget, the warning is shown and the result is computed from the first
  \<open>max_schedules\<close> tuples alone; when it has not, there is no warning. The loop stops at
  the first tuple after the budget is used up, whatever the remaining tuples are.
\<close>

theorem budget_bound:
  "length (snd (generate_schedules courses required_courses elective_courses max_schedules))
       \<le> nat max_schedules
     \<and> snd (generate_schedules courses required_courses elective_courses 0) = []
     \<and> (missing_must_select (must_select_names required_courses) (available_courses courses) = None
          \<longrightarrow> generate_schedules courses required_courses elective_courses 0
                = ([MaxSchedulesReached 0], []))
     \<and> (missing_must_select (must_select_names required_courses) (available_courses courses) = None
          \<and> nat max_schedules < length (itertools_product (course_options (available_courses courses)))
          \<longrightarrow> generate_schedules courses required_courses elective_courses max_schedules
                = ([MaxSchedulesReached max_schedules],
                   sort_key three_key
                     (map evaluate
                        (take (nat max_schedules)
                           (itertools_product (course_options (available_courses courses)))))))
     \<and> (missing_must_select (must_select_names required_courses) (available_courses courses) = None
          \<and> length (itertools_product (course_options (available_courses courses))) \<le> nat max_schedules
          \<longrightarrow> fst (generate_schedules courses required_courses elective_courses max_schedules) = [])
     \<and> (\<forall>names pre rest.
            (\<forall>cmb\<in>set pre. has_all_must_select names cmb) \<and> int (length pre) = max_schedules
              \<and> rest \<noteq> []
            \<longrightarrow> enumerate_loop names max_schedules (pre @ rest) 0 []
                  = (foldl (\<lambda>d s. dict_append (conflict_count s) s d) [] (map evaluate pre),
                     [MaxSchedulesReached max_schedules]))"
proof -
  let ?P = "itertools_product (course_options (available_courses courses))"
  have a: "length (snd (generate_schedules courses required_courses elective_courses max_schedules))
             \<le> nat max_schedules"
    by (simp add: generate_schedules_result)
  have b: "snd (generate_schedules courses required_courses elective_courses 0) = []"
    by (simp add: generate_schedules_result)
  have "0 < length ?P"
    using product_nonempty [of "available_courses courses"] by simp
  then have c: "missing_must_select (must_select_names required_courses) (available_courses courses) = None
          \<longrightarrow> generate_schedules courses required_courses elective_courses 0
                = ([MaxSchedulesReached 0], [])"
    by (simp add: generate_schedules_eq)
  have d: "missing_must_select (must_select_names required_courses) (available_courses courses) = None
          \<and> nat max_schedules < length ?P
          \<longrightarrow> generate_schedules courses required_courses elective_courses max_schedules
                = ([MaxSchedulesReached max_schedules],
                   sort_key three_key (map evaluate (take (nat max_schedules) ?P)))"
    by (simp add: generate_schedules_eq)
  have e: "missing_must_select (must_select_names required_courses) (available_courses courses) = None
          \<and> length ?P \<le> nat max_schedules
          \<longrightarrow> fst (generate_schedules courses required_courses elective_courses max_schedules) = []"
    by (simp add: generate_schedules_eq)
  have f: "\<forall>names pre rest.
            (\<forall>cmb\<in>set pre. has_all_must_select names cmb) \<and> int (length pre) = max_schedules
              \<and> rest \<noteq> []
            \<longrightarrow> enumerate_loop names max_schedules (pre @ rest) 0 []
                  = (foldl (\<lambda>d s. dict_append (conflict_count s) s d) [] (map evaluate pre),
                     [MaxSchedulesReached max_schedules])"
    using enumerate_loop_cut [where cnt = 0 and mx = max_schedules and d = "[]"] by simp
  from a b c d e f show ?thesis by (intro conjI)
qed

theorem budget_bound_witness:
  "missing_must_select (must_select_names ex_required) (available_courses ex_pool) = None
     \<and> length (itertools_product (course_options (available_courses ex_pool))) = 2
     \<and> generate_schedules ex_pool ex_required [ex_C] 1
         = ([MaxSchedulesReached 1], [evaluate [ex_A, ex_X2, ex_B, ex_C]])
     \<and> generate_schedules ex_pool ex_required [ex_C] 0 = ([MaxSchedulesReached 0], [])
     \<and> fst (generate_schedules ex_pool ex_required [ex_C] 2) = []
     \<and> enumerate_loop [''X''] 1 ([[ex_A, ex_X2, ex_B, ex_C]] @ [[ex_A, ex_X1, ex_B, ex_C]]) 0 []
         = ([(1, [evaluate [ex_A, ex_X2, ex_B, ex_C]])], [MaxSchedulesReached 1])"
proof -
  let ?P = "itertools_product (course_options (available_courses ex_pool))"
  have h: "missing_must_select (must_select_names ex_required) (available_courses ex_pool) = None"
    by code_simp
  have P: "?P = [[ex_A, ex_X2, ex_B, ex_C], [ex_A, ex_X1, ex_B, ex_C]]"
    by code_simp
  have len: "length ?P = 2" by (simp add: P)
  have all: "\<forall>cmb\<in>set [[ex_A, ex_X2, ex_B, ex_C]]. has_all_must_select [''X''] cmb"
    by code_simp
  have cc: "conflict_count (evaluate [ex_A, ex_X2, ex_B, ex_C]) = 1" by code_simp
  note inst1 = budget_bound [of ex_pool ex_required "[ex_C]" 1]
  note inst2 = budget_bound [of ex_pool ex_required "[ex_C]" 2]
  from inst1 h len
  have a: "generate_schedules ex_pool ex_required [ex_C] 1
             = ([MaxSchedulesReached 1], sort_key three_key (map evaluate (take (nat 1) ?P)))"
    by simp
  have b: "generate_schedules ex_pool ex_required [ex_C] 0 = ([MaxSchedulesReached 0], [])"
    using inst1 h by blast
  have c: "fst (generate_schedules ex_pool ex_required [ex_C] 2) = []"
    using inst2 h len by simp
  from inst1 have "(\<forall>cmb\<in>set [[ex_A, ex_X2, ex_B, ex_C]]. has_all_must_select [''X''] cmb)
        \<and> int (length [[ex_A, ex_X2, ex_B, ex_C]]) = 1 \<and> [[ex_A, ex_X1, ex_B, ex_C]] \<noteq> []
      \<longrightarrow> enumerate_loop [''X''] 1 ([[ex_A, ex_X2, ex_B, ex_C]] @ [[ex_A, ex_X1, ex_B, ex_C]]) 0 []
            = (foldl (\<lambda>d s. dict_append (conflict_count s) s d) []
                 (map evaluate [[ex_A, ex_X2, ex_B, ex_C]]), [MaxSchedulesReached 1])"
    by blast
  with all have d: "enumerate_loop [''X''] 1 ([[ex_A, ex_X2, ex_B, ex_C]] @ [[ex_A, ex_X1, ex_B, ex_C]]) 0 []
         = ([(1, [evaluate [ex_A, ex_X2, ex_B, ex_C]])], [MaxSchedulesReached 1])"
    by (simp add: cc)
  from a have a': "generate_schedules ex_pool ex_required [ex_C] 1
         = ([MaxSchedulesReached 1], [evaluate [ex_A, ex_X2, ex_B, ex_C]])"
    by (simp add: P)
  from h len a' b c d show ?thesis by (intro conjI)
qed

section \<open>Ranking\<close>

lemma sort_key_nth_mono:
  fixes f :: "'a \<Rightarrow> 'k::linorder"
  assumes "i < j" and "j < length lst"
  shows "f (sort_key f lst ! i) \<le> f (sort_key f lst ! j)"
proof -
  have "sorted (map f (sort_key f lst))" by simp
  then have "map f (sort_key f lst) ! i \<le> map f (sort_key f lst) ! j"
    using assms by (simp add: sorted_iff_nth_mono del: sorted_sort_key)
  with assms show ?thesis by simp
qed

lemma sort_key_twice: 
  fixes f :: "'a \<Rightarrow> 'k::linorder"
  shows "sort_key f (sort_key f lst) = sort_key f lst"
  by (rule sort_key_id_if_sorted) simp

lemma sort_key_generated_eq: "sort_key_generated opt = sort_key_fn opt"
  by (simp add: sort_key_generated_def sort_key_fn_def fun_eq_iff)

text \<open>
  Claim C7. After ranking under the policy "conflicts first", no candidate comes after a
  candidate with a higher conflict count: for positions \<open>i < j\<close> of the ranked list the
  conflict count at \<open>i\<close> is at most the one at \<open>j\<close>, and where they are equal the total
  priority at \<open>i\<close> is at least the one at \<open>j\<close>. This holds for the key of the sort button
  and for the key used right after generation, and ranking only reorders the list.
\<close>

theorem conflicts_first_order:
  "(\<forall>i j. i < j \<and> j < length lst \<longrightarrow>
       conflict_count (rank ConflictsFirst lst ! i) \<le> conflict_count (rank ConflictsFirst lst ! j)
       \<and> (conflict_count (rank ConflictsFirst lst ! i) = conflict_count (rank ConflictsFirst lst ! j)
            \<longrightarrow> total_priority (rank ConflictsFirst lst ! j)
                  \<le> total_priority (rank ConflictsFirst lst ! i)))
   \<and> (\<forall>i j. i < j \<and> j < length lst \<longrightarrow>
       conflict_count (sort_key (sort_key_generated ConflictsFirst) lst ! i)
         \<le> conflict_count (sort_key (sort_key_generated ConflictsFirst) lst ! j))
   \<and> mset (rank ConflictsFirst lst) = mset lst
   \<and> mset (sort_key (sort_key_generated ConflictsFirst) lst) = mset lst"
proof -
  let ?f = "sort_key_fn ConflictsFirst"
  have ord: "conflict_count (sort_key ?f lst ! i) \<le> conflict_count (sort_key ?f lst ! j)
       \<and> (conflict_count (sort_key ?f lst ! i) = conflict_count (sort_key ?f lst ! j)
            \<longrightarrow> total_priority (sort_key ?f lst ! j) \<le> total_priority (sort_key ?f lst ! i))"
    if "i < j" and "j < length lst" for i j
  proof -
    from sort_key_nth_mono [OF that, of ?f]
    have "?f (sort_key ?f lst ! i) \<le> ?f (sort_key ?f lst ! j)" .
    then show ?thesis
      by (auto simp: sort_key_fn_def)
  qed
  then show ?thesis
    unfolding rank_def sort_key_generated_eq by simp
qed

theorem conflicts_first_order_witness:
  "map conflict_count (rev (snd (generate_schedules ex_pool ex_required [ex_C] 1000))) = [2, 1]
     \<and> map conflict_count
          (rank ConflictsFirst (rev (snd (generate_schedules ex_pool ex_required [ex_C] 1000))))
         = [1, 2]
     \<and> conflict_count
          (rank ConflictsFirst (rev (snd (generate_schedules ex_pool ex_required [ex_C] 1000))) ! 0)
         \<le> conflict_count
          (rank ConflictsFirst (rev (snd (generate_schedules ex_pool ex_required [ex_C] 1000))) ! 1)"
proof -
  let ?lst = "rev (snd (generate_schedules ex_pool ex_required [ex_C] 1000))"
  have a: "map conflict_count ?lst = [2, 1]" by code_simp
  have b: "map conflict_count (rank ConflictsFirst ?lst) = [1, 2]" by code_simp
  from a have len: "(0::nat) < 1 \<and> 1 < length ?lst"
    by (metis length_map length_Cons list.size(3) One_nat_def lessI)
  from conflicts_first_order [of ?lst] len
  have "conflict_count (rank ConflictsFirst ?lst ! 0) \<le> conflict_count (rank ConflictsFirst ?lst ! 1)"
    by blast
  with a b show ?thesis by (intro conjI)
qed

text \<open>
  Claim C8. Ranking is idempotent: ranking a ranked list again with the same policy leaves
  it as it is, for the key of the sort button and for the key used after generation;
  pressing the sort button a second time gives the same lists and the same message as the
  first time.
\<close>

theorem rank_idempotent:
  "rank opt (rank opt lst) = rank opt lst
     \<and> apply_sort opt (snd (apply_sort opt st)) = apply_sort opt st
     \<and> sort_key (sort_key_generated opt) (sort_key (sort_key_generated opt) lst)
         = sort_key (sort_key_generated opt) lst
     \<and> rank opt (sort_key (sort_key_generated opt) lst) = sort_key (sort_key_generated opt) lst"
proof -
  have empty: "rank opt xs = [] \<longleftrightarrow> xs = []" for xs
    using length_sort [of "sort_key_fn opt" xs] unfolding rank_def
    by (metis length_0_conv)
  have twice: "rank opt (rank opt xs) = rank opt xs" for xs
    by (simp add: rank_def sort_key_twice)
  have button: "apply_sort opt (snd (apply_sort opt st)) = apply_sort opt st"
  proof (cases "fst st = [] \<and> snd st = []")
    case True
    then show ?thesis by (simp add: apply_sort_def)
  next
    case False
    then have "apply_sort opt st = ([SortApplied], rank opt (fst st), rank opt (snd st))"
      by (simp add: apply_sort_def)
    moreover have "\<not> (rank opt (fst st) = [] \<and> rank opt (snd st) = [])"
      using False by (simp add: empty)
    ultimately show ?thesis
      by (simp add: apply_sort_def twice)
  qed
  show ?thesis
    using twice button by (simp add: rank_def sort_key_generated_eq sort_key_twice)
qed

section \<open>The parameters that are read\<close>

lemma missing_must_select_set:
  assumes "set names1 = set names2"
  shows "missing_must_select names1 avail = None \<longleftrightarrow> missing_must_select names2 avail = None"
  using assms by (simp add: missing_must_select_None)

text \<open>
  Claim C9. \<open>elective_courses\<close> has no effect: two calls that differ only in it give the
  same messages and the same list. \<open>required_courses\<close> matters only through the set of
  its must-select names: two lists with the same such set give the same returned list, and
  the same messages too when the must-select check passes.
\<close>

theorem elective_courses_unused:
  "generate_schedules courses required_courses elective_a max_schedules
       = generate_schedules courses required_courses elective_b max_schedules
     \<and> (set (must_select_names required_a) = set (must_select_names required_b) \<longrightarrow>
          snd (generate_schedules courses required_a elective_a max_schedules)
            = snd (generate_schedules courses required_b elective_b max_schedules)
          \<and> (missing_must_select (must_select_names required_a) (available_courses courses) = None
               \<longrightarrow> generate_schedules courses required_a elective_a max_schedules
                     = generate_schedules courses required_b elective_b max_schedules))"
proof -
  have a: "generate_schedules courses required_courses elective_a max_schedules
             = generate_schedules courses required_courses elective_b max_schedules"
    by (simp add: generate_schedules_def)
  have b: "snd (generate_schedules courses required_a elective_a max_schedules)
            = snd (generate_schedules courses required_b elective_b max_schedules)
          \<and> (missing_must_select (must_select_names required_a) (available_courses courses) = None
               \<longrightarrow> generate_schedules courses required_a elective_a max_schedules
                     = generate_schedules courses required_b elective_b max_schedules)"
    if "set (must_select_names required_a) = set (must_select_names required_b)"
    using missing_must_select_set [OF that, of "available_courses courses"]
    by (auto simp: generate_schedules_eq split: option.splits)
  from a b show ?thesis by blast
qed

theorem elective_courses_unused_witness:
  "set (must_select_names [ex_X2, ex_A, ex_X2]) = set (must_select_names ex_required)
     \<and> [ex_X2, ex_A, ex_X2] \<noteq> ex_required
     \<and> generate_schedules ex_pool ex_required [ex_C] 1000
         = generate_schedules ex_pool ex_required [] 1000
     \<and> generate_schedules ex_pool [ex_X2, ex_A, ex_X2] [ex_C] 1000
         = generate_schedules ex_pool ex_required [] 1000"
proof -
  have h1: "set (must_select_names [ex_X2, ex_A, ex_X2]) = set (must_select_names ex_required)"
    by code_simp
  have h2: "missing_must_select (must_select_names [ex_X2, ex_A, ex_X2]) (available_courses ex_pool) = None"
    by code_simp
  have ne: "[ex_X2, ex_A, ex_X2] \<noteq> ex_required"
    by (simp add: ex_required_def)
  from elective_courses_unused [of ex_pool ex_required "[ex_C]" 1000 "[]"]
  have a: "generate_schedules ex_pool ex_required [ex_C] 1000
             = generate_schedules ex_pool ex_required [] 1000"
    by blast
  from elective_courses_unused [where courses = ex_pool and max_schedules = 1000
      and required_a = "[ex_X2, ex_A, ex_X2]" and required_b = ex_required
      and elective_a = "[ex_C]" and elective_b = "[]"] h1 h2
  have b: "generate_schedules ex_pool [ex_X2, ex_A, ex_X2] [ex_C] 1000
             = generate_schedules ex_pool ex_required [] 1000"
    by blast
  from h1 ne a b show ?thesis by (intro conjI)
qed

section \<open>Enumeration order\<close>

lemma nth_concat_blocks:
  assumes "\<forall>x\<in>set xs. length (f x) = M" and "q < length xs * M"
  shows "concat (map f xs) ! q = f (xs ! (q div M)) ! (q mod M)"
  using assms
proof (induction xs arbitrary: q)
  case Nil
  then show ?case by simp
next
  case (Cons x xs)
  from Cons.prems(2) have M: "0 < M" by (cases M) auto
  show ?case
  proof (cases "q < M")
    case True
    with Cons.prems(1) show ?thesis by (simp add: nth_append)
  next
    case False
    then have ge: "M \<le> q" by simp
    from Cons.prems(2) ge have "q - M < length xs * M" by simp
    with Cons.IH [of "q - M"] Cons.prems(1)
    have "concat (map f xs) ! (q - M) = f (xs ! ((q - M) div M)) ! ((q - M) mod M)" by simp
    moreover have "q div M = Suc ((q - M) div M)"
      using M ge by (rule le_div_geq)
    moreover have "q mod M = (q - M) mod M"
      using ge by (rule le_mod_geq)
    ultimately show ?thesis
      using Cons.prems(1) False by (simp add: nth_append)
  qed
qed

lemma itertools_product_nth:
  "q < prod_list (map length pools) \<Longrightarrow>
     itertools_product pools ! q
       = map (\<lambda>(pool, i). pool ! i) (zip pools (index_tuple (map length pools) q))"
proof (induction pools arbitrary: q)
  case Nil
  then show ?case by simp
next
  case (Cons pool pools)
  let ?M = "prod_list (map length pools)"
  let ?f = "\<lambda>x. map (\<lambda>rest. x # rest) (itertools_product pools)"
  from Cons.prems have q: "q < length pool * ?M" by simp
  then have M: "0 < ?M" by (cases ?M) auto
  have "\<forall>x\<in>set pool. length (?f x) = ?M"
    by (simp add: length_itertools_product)
  from nth_concat_blocks [OF this q]
  have "itertools_product (pool # pools) ! q = ?f (pool ! (q div ?M)) ! (q mod ?M)"
    by simp
  also have "\<dots> = pool ! (q div ?M) # itertools_product pools ! (q mod ?M)"
    using M by (simp add: length_itertools_product)
  also have "itertools_product pools ! (q mod ?M)
      = map (\<lambda>(pool, i). pool ! i) (zip pools (index_tuple (map length pools) (q mod ?M)))"
    using M by (intro Cons.IH) simp
  finally show ?case by simp
qed

lemma index_tuple_lex:
  "q < q' \<Longrightarrow> q' < prod_list ns \<Longrightarrow>
     (index_tuple ns q, index_tuple ns q') \<in> lexord {(a, b). a < b}"
proof (induction ns arbitrary: q q')
  case Nil
  then show ?case by simp
next
  case (Cons n ns)
  let ?M = "prod_list ns"
  from Cons.prems(2) have M: "0 < ?M" by (cases ?M) auto
  have le: "q div ?M \<le> q' div ?M"
    using Cons.prems(1) by (simp add: div_le_mono)
  show ?case
  proof (cases "q div ?M < q' div ?M")
    case True
    then show ?thesis by simp
  next
    case False
    with le have eq: "q div ?M = q' div ?M" by simp
    have "q = ?M * (q div ?M) + q mod ?M" and "q' = ?M * (q' div ?M) + q' mod ?M"
      by simp_all
    with eq Cons.prems(1) have "q mod ?M < q' mod ?M"
      by (metis add_less_cancel_left)
    moreover have "q' mod ?M < ?M" using M by simp
    ultimately have "(index_tuple ns (q mod ?M), index_tuple ns (q' mod ?M)) \<in> lexord {(a, b). a < b}"
      by (rule Cons.IH)
    with eq show ?thesis by simp
  qed
qed

lemma index_tuple_bounds:
  "q < prod_list ns \<Longrightarrow> list_all2 (\<lambda>i n. i < n) (index_tuple ns q) ns"
proof (induction ns arbitrary: q)
  case Nil
  then show ?case by simp
next
  case (Cons n ns)
  let ?M = "prod_list ns"
  from Cons.prems have M: "0 < ?M" by (cases ?M) auto
  from Cons.prems have "q < n * ?M" by simp
  then have "q div ?M < n"
    by (rule less_mult_imp_div_less)
  moreover have "list_all2 (\<lambda>i n. i < n) (index_tuple ns (q mod ?M)) ns"
    using M by (intro Cons.IH) simp
  ultimately show ?case by simp
qed

text \<open>
  Claim C10. The course groups are in the order in which their names first appear in the
  pool without the excluded sections, each group holding the sections of its name. The
  product has as many tuples as the product of the group sizes; its \<open>q\<close>-th tuple takes
  from each group the section at the index given by the digits of \<open>q\<close> in the mixed radix
  of the group sizes, the first group being the most significant digit, so the index tuples
  come in lexicographic order, the first group varying slowest and the last fastest. When
  the must-select check passes, the returned candidates are the first
  \<open>min max_schedules (size of the product)\<close> tuples of that order, evaluated and sorted.
\<close>

theorem enumeration_order:
  "course_names (available_courses courses)
       = first_occurrences (map name (available_courses courses))
     \<and> course_options (available_courses courses)
         = map (\<lambda>n. sort_key group_key (filter (\<lambda>c. name c = n) (available_courses courses)))
             (course_names (available_courses courses))
     \<and> length (itertools_product (course_options (available_courses courses)))
         = prod_list (map length (course_options (available_courses courses)))
     \<and> (\<forall>q. q < length (itertools_product (course_options (available_courses courses))) \<longrightarrow>
          itertools_product (course_options (available_courses courses)) ! q
            = map (\<lambda>(pool, i). pool ! i)
                (zip (course_options (available_courses courses))
                   (index_tuple (map length (course_options (available_courses courses))) q))
          \<and> list_all2 (\<lambda>i n. i < n)
                (index_tuple (map length (course_options (available_courses courses))) q)
                (map length (course_options (available_courses courses))))
     \<and> (\<forall>q q'. q < q'
            \<and> q' < length (itertools_product (course_options (available_courses courses))) \<longrightarrow>
          (index_tuple (map length (course_options (available_courses courses))) q,
           index_tuple (map length (course_options (available_courses courses))) q')
            \<in> lexord {(a, b). a < b})
     \<and> (missing_must_select (must_select_names required_courses) (available_courses courses) = None
          \<longrightarrow>
          snd (generate_schedules courses required_courses elective_courses max_schedules)
            = sort_key three_key
                (map evaluate
                   (take (min (nat max_schedules)
                            (length (itertools_product (course_options (available_courses courses)))))
                      (itertools_product (course_options (available_courses courses)))))
          \<and> mset (map combo
                  (snd (generate_schedules courses required_courses elective_courses max_schedules)))
              = mset (take (min (nat max_schedules)
                             (length (itertools_product (course_options (available_courses courses)))))
                       (itertools_product (course_options (available_courses courses)))))"
proof -
  let ?avail = "available_courses courses"
  let ?opts = "course_options ?avail"
  let ?P = "itertools_product ?opts"
  let ?ns = "map length ?opts"
  let ?r = "snd (generate_schedules courses required_courses elective_courses max_schedules)"
  have a: "course_names ?avail = first_occurrences (map name ?avail)"
    by (rule course_names_eq)
  have b: "?opts = map (\<lambda>n. sort_key group_key (filter (\<lambda>c. name c = n) ?avail)) (course_names ?avail)"
    by (rule course_options_eq)
  have c: "length ?P = prod_list ?ns"
    by (rule length_itertools_product)
  have d: "\<forall>q. q < length ?P \<longrightarrow>
          ?P ! q = map (\<lambda>(pool, i). pool ! i) (zip ?opts (index_tuple ?ns q))
          \<and> list_all2 (\<lambda>i n. i < n) (index_tuple ?ns q) ?ns"
    using itertools_product_nth [of _ ?opts] index_tuple_bounds [of _ ?ns]
    unfolding c by blast
  have e: "\<forall>q q'. q < q' \<and> q' < length ?P \<longrightarrow>
          (index_tuple ?ns q, index_tuple ?ns q') \<in> lexord {(a, b). a < b}"
    using index_tuple_lex [of _ _ ?ns] unfolding c by blast
  have f: "?r = sort_key three_key (map evaluate (take (min (nat max_schedules) (length ?P)) ?P))
          \<and> mset (map combo ?r) = mset (take (min (nat max_schedules) (length ?P)) ?P)"
    if "missing_must_select (must_select_names required_courses) ?avail = None"
  proof -
    have tk: "take (min (nat max_schedules) (length ?P)) ?P = take (nat max_schedules) ?P"
      by (simp add: min_def)
    have r: "?r = sort_key three_key (map evaluate (take (nat max_schedules) ?P))"
      using that by (simp add: generate_schedules_result)
    have "mset (map combo ?r) = image_mset combo (mset (map evaluate (take (nat max_schedules) ?P)))"
      unfolding r by simp
    also have "\<dots> = mset (take (nat max_schedules) ?P)"
      by (simp add: image_mset.compositionality comp_def flip: mset_map)
    finally show ?thesis
      unfolding tk using r by simp
  qed
  from a b c d e f show ?thesis by (intro conjI impI) blast+
qed

theorem enumeration_order_witness:
  "course_names (available_courses ex_pool2) = [''A'', ''X'', ''B'', ''C'']
     \<and> map (map class_id) (itertools_product (course_options (available_courses ex_pool2)))
         = [[''1'', ''2'', ''1'', ''1''], [''1'', ''2'', ''2'', ''1''],
            [''1'', ''1'', ''1'', ''1''], [''1'', ''1'', ''2'', ''1'']]
     \<and> map (index_tuple (map length (course_options (available_courses ex_pool2)))) [0, 1, 2, 3]
         = [[0, 0, 0, 0], [0, 0, 1, 0], [0, 1, 0, 0], [0, 1, 1, 0]]
     \<and> itertools_product (course_options (available_courses ex_pool2)) ! 2
         = map (\<lambda>(pool, i). pool ! i)
             (zip (course_options (available_courses ex_pool2)) [0, 1, 0, 0])
     \<and> ([0, 0, 1, 0], [0, 1, 0, 0]) \<in> lexord {(a, b). a < (b::nat)}
     \<and> mset (map combo (snd (generate_schedules ex_pool2 ex_required [ex_C] 3)))
         = mset (take 3 (itertools_product (course_options (available_courses ex_pool2))))"
proof -
  let ?opts = "course_options (available_courses ex_pool2)"
  let ?P = "itertools_product ?opts"
  have names: "course_names (available_courses ex_pool2) = [''A'', ''X'', ''B'', ''C'']"
    by code_simp
  have P: "map (map class_id) ?P
         = [[''1'', ''2'', ''1'', ''1''], [''1'', ''2'', ''2'', ''1''],
            [''1'', ''1'', ''1'', ''1''], [''1'', ''1'', ''2'', ''1'']]"
    by code_simp
  then have len: "length ?P = 4"
    by (metis length_map length_Cons list.size(3) numeral_eq_Suc pred_numeral_simps(2)
        pred_numeral_simps(3) semiring_norm(26) semiring_norm(27) One_nat_def Suc_1)
  have idx: "map (index_tuple (map length ?opts)) [0, 1, 2, 3]
         = [[0, 0, 0, 0], [0, 0, 1, 0], [0, 1, 0, 0], [0, 1, 1, 0]]"
    by code_simp
  have h: "missing_must_select (must_select_names ex_required) (available_courses ex_pool2) = None"
    by code_simp
  note inst = enumeration_order [of ex_pool2 ex_required "[ex_C]" 3]
  note nth_part = inst [THEN conjunct2, THEN conjunct2, THEN conjunct2, THEN conjunct1]
  note lex_part = inst [THEN conjunct2, THEN conjunct2, THEN conjunct2, THEN conjunct2,
      THEN conjunct1]
  note cut_part = inst [THEN conjunct2, THEN conjunct2, THEN conjunct2, THEN conjunct2,
      THEN conjunct2]
  have two: "2 < length ?P" and one_two: "(1::nat) < 2 \<and> 2 < length ?P"
    by (simp_all add: len)
  from nth_part [rule_format, OF two]
  have "?P ! 2 = map (\<lambda>(pool, i). pool ! i) (zip ?opts (index_tuple (map length ?opts) 2))"
    by (rule conjunct1)
  moreover from idx have i2: "index_tuple (map length ?opts) 2 = [0, 1, 0, 0]"
    and i1: "index_tuple (map length ?opts) 1 = [0, 0, 1, 0]"
    by simp_all
  ultimately have nth: "?P ! 2 = map (\<lambda>(pool, i). pool ! i) (zip ?opts [0, 1, 0, 0])"
    by (simp only:)
  from lex_part [rule_format, OF one_two]
  have lex: "([0, 0, 1, 0], [0, 1, 0, 0]) \<in> lexord {(a, b). a < (b::nat)}"
    by (simp only: i1 i2)
  from cut_part [rule_format, OF h]
  have "mset (map combo (snd (generate_schedules ex_pool2 ex_required [ex_C] 3)))
          = mset (take (min (nat 3) (length ?P)) ?P)"
    by (rule conjunct2)
  then have cut: "mset (map combo (snd (generate_schedules ex_pool2 ex_required [ex_C] 3)))
               = mset (take 3 ?P)"
    by (simp only: len) simp
  from names P idx nth lex cut show ?thesis by (intro conjI)
qed

end
